theory Spec2Isabelle
  imports Main "HOL-Library.AList" "HOL-Library.Multiset" "HOL-Library.Code_Target_Nat"
begin

section \<open>The Targetly SSE adapter (adapters/targetly-adapter.js)\<close>

text \<open>
  The adapter owns one child process and bridges it to HTTP clients: the child's standard
  output is cut into lines and every line that parses as JSON is written as an SSE event
  to every registered session; the body of a POST to \<^verbatim>\<open>/messages\<close> is written to the
  child's standard input. The node process runs one callback at a time, so each callback
  of the source is a function from the adapter's state to its next state.

  A JavaScript string is the list of its UTF-16 code units, each a number. A \<^verbatim>\<open>Buffer\<close>
  is a list of bytes, each a \<open>char\<close>. \<open>js\<close> gives the JavaScript string of an ASCII
  literal of the source.
\<close>

type_synonym jstring = "nat list"

type_synonym bytes = "char list"

definition js :: "string \<Rightarrow> jstring" where
  "js s = map of_char s"

subsection \<open>Strings: split, pop and trim\<close>

definition newline :: nat where
  "newline = 0x0A"

text \<open>
  \<^verbatim>\<open>s.split("\n")\<close>: the pieces of \<open>s\<close> between newlines, in order. The result is never
  empty (\<open>split_nl_nonempty\<close> below, so \<open>hd\<close> and \<open>tl\<close> are applied to a non-empty list
  only): a string without newline is its own single piece, and a string that ends with a
  newline has the empty string as its last piece.
\<close>

fun split_nl :: "jstring \<Rightarrow> jstring list" where
  "split_nl [] = [[]]"
| "split_nl (c # cs) =
     (if c = newline then [] # split_nl cs
      else (c # hd (split_nl cs)) # tl (split_nl cs))"

text \<open>
  The code units \<^verbatim>\<open>String.prototype.trim\<close> strips: the white space of the language (tab,
  vertical tab, form feed, space, no-break space, the byte order mark and the space
  separators of Unicode) and its line terminators (line feed, carriage return, line
  separator, paragraph separator).
\<close>

definition is_space :: "nat \<Rightarrow> bool" where
  "is_space c \<longleftrightarrow>
     c = 0x09 \<or> c = 0x0A \<or> c = 0x0B \<or> c = 0x0C \<or> c = 0x0D \<or> c = 0x20 \<or> c = 0xA0
     \<or> c = 0x1680 \<or> (0x2000 \<le> c \<and> c \<le> 0x200A) \<or> c = 0x2028 \<or> c = 0x2029
     \<or> c = 0x202F \<or> c = 0x205F \<or> c = 0x3000 \<or> c = 0xFEFF"

definition trim :: "jstring \<Rightarrow> jstring" where
  "trim s = rev (dropWhile is_space (rev (dropWhile is_space s)))"

text \<open>\<^verbatim>\<open>!line.trim()\<close>: the empty string is the only string that is falsy.\<close>

definition blank :: "jstring \<Rightarrow> bool" where
  "blank line \<longleftrightarrow> trim line = []"

subsection \<open>\<^verbatim>\<open>Buffer.prototype.toString()\<close>\<close>

text \<open>
  With no argument the bytes are decoded as UTF-8, by the decoder of the Encoding
  standard: it reads one byte at a time, and a byte that cannot start or continue a
  sequence, and a sequence that the end of the buffer cuts short, become U+FFFD. The state
  between two bytes is \<open>Idle\<close>, or \<open>Pending n cp lo hi\<close> when \<open>n\<close> more bytes are needed,
  \<open>cp\<close> holds the bits read so far and the next byte must lie between \<open>lo\<close> and \<open>hi\<close>. The
  byte order mark is kept.
\<close>

datatype decoder = Idle | Pending nat nat nat nat

text \<open>A byte read in state \<open>Idle\<close>.\<close>

definition lead :: "nat \<Rightarrow> jstring \<times> decoder" where
  "lead b =
     (if b < 0x80 then ([b], Idle)
      else if 0xC2 \<le> b \<and> b \<le> 0xDF then ([], Pending 1 (b - 0xC0) 0x80 0xBF)
      else if 0xE0 \<le> b \<and> b \<le> 0xEF
        then ([], Pending 2 (b - 0xE0) (if b = 0xE0 then 0xA0 else 0x80)
                    (if b = 0xED then 0x9F else 0xBF))
      else if 0xF0 \<le> b \<and> b \<le> 0xF4
        then ([], Pending 3 (b - 0xF0) (if b = 0xF0 then 0x90 else 0x80)
                    (if b = 0xF4 then 0x8F else 0xBF))
      else ([0xFFFD], Idle))"

text \<open>The code units of a code point: itself, or a surrogate pair from U+10000 on.\<close>

definition units :: "nat \<Rightarrow> jstring" where
  "units cp =
     (if cp < 0x10000 then [cp]
      else [0xD800 + (cp - 0x10000) div 0x400, 0xDC00 + (cp - 0x10000) mod 0x400])"

text \<open>
  One byte. A byte out of range ends the sequence with U+FFFD and is then read again as the
  first byte of a new one.
\<close>

fun step :: "decoder \<Rightarrow> nat \<Rightarrow> jstring \<times> decoder" where
  "step Idle b = lead b"
| "step (Pending n cp lo hi) b =
     (if lo \<le> b \<and> b \<le> hi
      then (if n = 1 then (units (cp * 64 + (b - 0x80)), Idle)
            else ([], Pending (n - 1) (cp * 64 + (b - 0x80)) 0x80 0xBF))
      else (0xFFFD # fst (lead b), snd (lead b)))"

fun run :: "decoder \<Rightarrow> bytes \<Rightarrow> jstring \<times> decoder" where
  "run s [] = ([], s)"
| "run s (b # bs) =
     (fst (step s (of_char b)) @ fst (run (snd (step s (of_char b))) bs),
      snd (run (snd (step s (of_char b))) bs))"

text \<open>The end of the buffer.\<close>

fun flush :: "decoder \<Rightarrow> jstring" where
  "flush Idle = []"
| "flush (Pending n cp lo hi) = [0xFFFD]"

definition utf8_to_string :: "bytes \<Rightarrow> jstring" where
  "utf8_to_string chunk = fst (run Idle chunk) @ flush (snd (run Idle chunk))"

subsection \<open>The line framer\<close>

text \<open>
  The first three statements of the \<^verbatim>\<open>data\<close> callback, and the \<^verbatim>\<open>continue\<close> of its loop:
  \<^verbatim>\<open>
  buffer += chunk.toString();
  const lines = buffer.split("\n");
  buffer = lines.pop();
  for (const line of lines) { if (!line.trim()) continue; ... }
  \<close>
  The chunk is a \<^verbatim>\<open>Buffer\<close> (the stream has no encoding set), and each chunk is decoded
  on its own. \<open>to_string\<close> is \<^verbatim>\<open>chunk.toString()\<close>, the runtime's, a parameter;
  \<open>utf8_to_string\<close> above is the one node has. \<open>frame_chunk\<close> returns the lines that reach
  the body of the loop and the new buffer.
\<close>

definition frame_chunk ::
  "(bytes \<Rightarrow> jstring) \<Rightarrow> jstring \<Rightarrow> bytes \<Rightarrow> jstring list \<times> jstring" where
  "frame_chunk to_string buf chunk =
     (let lines = split_nl (buf @ to_string chunk)
      in (filter (\<lambda>line. \<not> blank line) (butlast lines), last lines))"

text \<open>The framer run over a sequence of chunks: all lines it lets through, and the buffer left.\<close>

fun framer ::
  "(bytes \<Rightarrow> jstring) \<Rightarrow> jstring \<Rightarrow> bytes list \<Rightarrow> jstring list \<times> jstring" where
  "framer to_string buf [] = ([], buf)"
| "framer to_string buf (chunk # chunks) =
     (let (ls, buf') = frame_chunk to_string buf chunk;
          (ls', buf'') = framer to_string buf' chunks
      in (ls @ ls', buf''))"

text \<open>
  The reading the framer is compared with: a text split once. Its pieces but the last are
  the complete lines (each was closed by a newline); the last piece is what follows the
  last newline.
\<close>

definition complete_lines :: "jstring \<Rightarrow> jstring list" where
  "complete_lines s = butlast (split_nl s)"

definition pending :: "jstring \<Rightarrow> jstring" where
  "pending s = last (split_nl s)"

subsection \<open>The adapter's state\<close>

text \<open>
  The module's variables and the streams it writes to. \<open>sessions\<close> is the \<^verbatim>\<open>Map\<close> from
  session id to response object, as the list of its entries in insertion order (the
  order \<^verbatim>\<open>for ... of\<close> visits them). A response object is a reference; \<open>sent\<close> holds,
  for each response object, the arguments of the \<^verbatim>\<open>res.write\<close> calls made on it so far,
  also once the object has left the registry. \<open>child_stdin\<close> holds the arguments of the
  \<^verbatim>\<open>child.stdin.write\<close> calls, and \<open>console_error\<close> the lines printed with
  \<^verbatim>\<open>console.error\<close> for a line that is dropped. Debug logging and the response headers
  are left out: they write nothing to these streams.
\<close>

record adapter =
  buffer :: jstring
  sessions :: "(jstring \<times> nat) list"
  sent :: "nat \<Rightarrow> jstring list"
  child_stdin :: "jstring list"
  console_error :: "jstring list"

definition init :: adapter where
  "init = \<lparr>buffer = [], sessions = [], sent = (\<lambda>r. []), child_stdin = [], console_error = []\<rparr>"

text \<open>
  \<^verbatim>\<open>res.write(data)\<close> with a string: the call returns, also when the client has gone. A
  connection that fails shows to the adapter as the \<^verbatim>\<open>close\<close> event of its request.
\<close>

definition res_write :: "nat \<Rightarrow> jstring \<Rightarrow> adapter \<Rightarrow> adapter" where
  "res_write r data st = st\<lparr>sent := (sent st)(r := sent st r @ [data])\<rparr>"

text \<open>\<^verbatim>\<open>sessions.has(k)\<close>\<close>

definition sessions_has :: "adapter \<Rightarrow> jstring \<Rightarrow> bool" where
  "sessions_has st k \<longleftrightarrow> map_of (sessions st) k \<noteq> None"

subsection \<open>Child output: the \<^verbatim>\<open>data\<close> callback\<close>

text \<open>The two writes that make one SSE event of type \<^verbatim>\<open>message\<close> carrying \<open>line\<close>.\<close>

definition message_event :: "jstring \<Rightarrow> jstring list" where
  "message_event line =
     [js ''event: message'' @ [newline], js ''data: '' @ line @ [newline, newline]]"

text \<open>
  \<^verbatim>\<open>
  for (const [sessionId, res] of sessions) {
      res.write(`event: message\n`);
      res.write(`data: ${line}\n\n`);
  }
  \<close>
\<close>

fun dispatch :: "jstring \<Rightarrow> (jstring \<times> nat) list \<Rightarrow> adapter \<Rightarrow> adapter" where
  "dispatch line [] st = st"
| "dispatch line ((sessionId, r) # rest) st =
     dispatch line rest
       (res_write r (js ''data: '' @ line @ [newline, newline])
          (res_write r (js ''event: message'' @ [newline]) st))"

definition log_invalid :: "jstring \<Rightarrow> adapter \<Rightarrow> adapter" where
  "log_invalid line st =
     st\<lparr>console_error :=
          console_error st @ [js ''Targetly Adapter: Invalid JSON from child: '' @ line]\<rparr>"

text \<open>
  The body of the loop over the lines. \<open>json_ok line\<close> says that \<^verbatim>\<open>JSON.parse(line)\<close>
  returns; the parser is the runtime's, so it is a parameter. Nothing else in the
  \<^verbatim>\<open>try\<close> block throws: the writes are given strings.
  \<^verbatim>\<open>
  if (!line.trim()) continue;
  try { JSON.parse(line); <dispatch> }
  catch (err) { console.error("Targetly Adapter: Invalid JSON from child:", line); }
  \<close>
\<close>

definition handle_line :: "(jstring \<Rightarrow> bool) \<Rightarrow> jstring \<Rightarrow> adapter \<Rightarrow> adapter" where
  "handle_line json_ok line st =
     (if blank line then st
      else if \<not> json_ok line then log_invalid line st
      else dispatch line (sessions st) st)"

definition process_lines :: "(jstring \<Rightarrow> bool) \<Rightarrow> jstring list \<Rightarrow> adapter \<Rightarrow> adapter" where
  "process_lines json_ok lines st = foldl (\<lambda>s line. handle_line json_ok line s) st lines"

definition on_data ::
  "(bytes \<Rightarrow> jstring) \<Rightarrow> (jstring \<Rightarrow> bool) \<Rightarrow> bytes \<Rightarrow> adapter \<Rightarrow> adapter" where
  "on_data to_string json_ok chunk st =
     (let lines = split_nl (buffer st @ to_string chunk)
      in process_lines json_ok (butlast lines) (st\<lparr>buffer := last lines\<rparr>))"

text \<open>The callback run once for each chunk of a sequence.\<close>

definition feed ::
  "(bytes \<Rightarrow> jstring) \<Rightarrow> (jstring \<Rightarrow> bool) \<Rightarrow> bytes list \<Rightarrow> adapter \<Rightarrow> adapter" where
  "feed to_string json_ok chunks st =
     foldl (\<lambda>s chunk. on_data to_string json_ok chunk s) st chunks"

subsection \<open>\<^verbatim>\<open>GET /sse\<close> and the request's \<^verbatim>\<open>close\<close> event\<close>

definition endpoint_event :: "jstring \<Rightarrow> jstring list" where
  "endpoint_event sessionId =
     [js ''event: endpoint'' @ [newline],
      js ''data: /messages?session_id='' @ sessionId @ [newline, newline]]"

text \<open>
  \<open>sessionId\<close> is what \<^verbatim>\<open>crypto.randomUUID()\<close> returned and \<open>r\<close> the response object of
  the request. \<^verbatim>\<open>sessions.set\<close> keeps the position of a key that is already there.
\<close>

definition sse_get :: "jstring \<Rightarrow> nat \<Rightarrow> adapter \<Rightarrow> adapter" where
  "sse_get sessionId r st =
     res_write r (js ''data: /messages?session_id='' @ sessionId @ [newline, newline])
       (res_write r (js ''event: endpoint'' @ [newline])
          (st\<lparr>sessions := AList.update sessionId r (sessions st)\<rparr>))"

text \<open>The keep-alive timer of a session: \<^verbatim>\<open>res.write(`: ping\n\n`)\<close> every 15 seconds.\<close>

definition on_ping :: "nat \<Rightarrow> adapter \<Rightarrow> adapter" where
  "on_ping r st = res_write r (js '': ping'' @ [newline, newline]) st"

text \<open>
  \<^verbatim>\<open>req.on("close", ...)\<close>: \<^verbatim>\<open>sessions.delete(sessionId)\<close>, after the timer is cleared.
  Deleting a key that is not there changes nothing.
\<close>

definition on_close :: "jstring \<Rightarrow> adapter \<Rightarrow> adapter" where
  "on_close sessionId st = st\<lparr>sessions := AList.delete sessionId (sessions st)\<rparr>"

subsection \<open>\<^verbatim>\<open>POST /messages\<close>: the route\<close>

text \<open>
  The handler reads two things of the request. \<^verbatim>\<open>req.query.session_id\<close> is absent, a
  string, or an array or object (a repeated or bracketed parameter), which is truthy and
  is no key of the registry. \<^verbatim>\<open>req.body\<close> is what the body parsers in front of the route
  left there: an object (\<^verbatim>\<open>typeof body === "object"\<close>) or a string. \<open>stringify\<close> is
  \<^verbatim>\<open>JSON.stringify\<close>, the runtime's, a parameter.
\<close>

datatype query_value = Absent | Value jstring | Nested

datatype 'j body = Object 'j | Text jstring

record reply =
  status :: nat
  payload :: jstring

definition body_text :: "('j \<Rightarrow> jstring) \<Rightarrow> 'j body \<Rightarrow> jstring" where
  "body_text stringify b = (case b of Object j \<Rightarrow> stringify j | Text s \<Rightarrow> s)"

text \<open>\<^verbatim>\<open>!sessionId || !sessions.has(sessionId)\<close>: the empty string is falsy as well.\<close>

definition invalid_session :: "adapter \<Rightarrow> query_value \<Rightarrow> bool" where
  "invalid_session st q =
     (case q of
        Absent \<Rightarrow> True
      | Value s \<Rightarrow> s = [] \<or> \<not> sessions_has st s
      | Nested \<Rightarrow> True)"

definition post_messages ::
  "('j \<Rightarrow> jstring) \<Rightarrow> query_value \<Rightarrow> 'j body \<Rightarrow> adapter \<Rightarrow> reply \<times> adapter" where
  "post_messages stringify q b st =
     (if invalid_session st q
      then (\<lparr>status = 400, payload = js ''Invalid or missing session_id''\<rparr>, st)
      else (\<lparr>status = 202, payload = js ''Accepted''\<rparr>,
            st\<lparr>child_stdin := child_stdin st @ [body_text stringify b @ [newline]]\<rparr>))"

subsection \<open>\<^verbatim>\<open>POST /messages\<close>: the body parsers in front of the route\<close>

text \<open>
  \<^verbatim>\<open>
  app.use(express.json());
  app.use(express.text({ type: "*/*" }));
  \<close>
  Both parsers are the framework's and run before the route. A \<open>request\<close> is a POST that
  carries a body and a \<^verbatim>\<open>Content-Type\<close> header: \<open>json_typed\<close> says that the type is
  \<^verbatim>\<open>application/json\<close>, and \<open>raw\<close> is the text of the body. For such a type
  \<^verbatim>\<open>express.json()\<close> parses the body and leaves the object or array as \<^verbatim>\<open>req.body\<close>; a body
  it cannot parse it answers itself with status 400, and the route is not run. For every
  other type \<^verbatim>\<open>express.text\<close> leaves the body as a string. \<open>json_body\<close> is the parser of
  \<^verbatim>\<open>express.json()\<close>, a parameter: the value for a body it accepts, \<open>None\<close> for a body it
  rejects.
\<close>

record request =
  session_id :: query_value
  json_typed :: bool
  raw :: jstring



subsection \<open>The child's \<^verbatim>\<open>exit\<close> event\<close>

text \<open>
  \<^verbatim>\<open>process.exit(code || 1)\<close>. The code is \<^verbatim>\<open>null\<close> when a signal ended the child.
  \<^verbatim>\<open>a || b\<close> is \<open>a\<close> when \<open>a\<close> is truthy and \<open>b\<close> otherwise; \<^verbatim>\<open>null\<close> and \<open>0\<close> are falsy.
\<close>

definition truthy :: "nat option \<Rightarrow> bool" where
  "truthy code = (case code of None \<Rightarrow> False | Some n \<Rightarrow> n \<noteq> 0)"

definition on_exit :: "nat option \<Rightarrow> nat" where
  "on_exit code = (if truthy code then (case code of Some n \<Rightarrow> n | None \<Rightarrow> 1) else 1)"

subsection \<open>What a broadcast writes\<close>

text \<open>
  The writes one pass of the dispatch loop for \<open>line\<close> over the entries \<open>ss\<close> makes on the
  response object \<open>r\<close>: one event for each entry that holds \<open>r\<close>.
\<close>

definition delivered :: "jstring \<Rightarrow> (jstring \<times> nat) list \<Rightarrow> nat \<Rightarrow> jstring list" where
  "delivered line ss r = concat (map (\<lambda>p. message_event line) (filter (\<lambda>p. snd p = r) ss))"

subsection \<open>Conditions on states\<close>

text \<open>
  Every key of the registry came from \<^verbatim>\<open>crypto.randomUUID()\<close>, which returns a string of
  36 characters, never the empty one.
\<close>

definition registry_ok :: "adapter \<Rightarrow> bool" where
  "registry_ok st \<longleftrightarrow> [] \<notin> fst ` set (sessions st)"

text \<open>Every request has a response object of its own: no two entries share one.\<close>

definition own_channels :: "adapter \<Rightarrow> bool" where
  "own_channels st \<longleftrightarrow> distinct (map snd (sessions st))"

subsection \<open>Data for the examples\<close>

text \<open>
  The parser of the examples accepts a line that opens and closes with matching brackets.
  It stands for \<^verbatim>\<open>JSON.parse\<close> on the lines the examples use: it accepts \<^verbatim>\<open>{}\<close> and
  \<^verbatim>\<open>[1]\<close> and rejects \<^verbatim>\<open>not-json\<close>.
\<close>

definition bracketed :: "jstring \<Rightarrow> bool" where
  "bracketed s \<longleftrightarrow>
     (case s of [] \<Rightarrow> False
      | c # cs \<Rightarrow> (c = 0x7B \<and> last s = 0x7D) \<or> (c = 0x5B \<and> last s = 0x5D))"

text \<open>Two sessions, \<open>a\<close> on response object 0 and \<open>b\<close> on response object 1.\<close>

definition two_sessions :: adapter where
  "two_sessions = init\<lparr>sessions := [(js ''a'', 0), (js ''b'', 1)]\<rparr>"

text \<open>
  The serializer and the body parser of the examples know one object, \<^verbatim>\<open>{}\<close>.
\<close>

definition stringify_unit :: "unit \<Rightarrow> jstring" where
  "stringify_unit j = js ''{}''"


section \<open>Properties\<close>

subsection \<open>Splitting\<close>

lemma split_nl_nonempty: "split_nl s \<noteq> []"
  by (cases s) simp_all

lemma split_nl_append:
  "split_nl (a @ b) = butlast (split_nl a) @ split_nl (last (split_nl a) @ b)"
proof (induction a)
  case Nil
  show ?case by simp
next
  case (Cons c a)
  let ?A = "split_nl a"
  have A: "?A \<noteq> []" by (rule split_nl_nonempty)
  show ?case
  proof (cases "c = newline")
    case True
    with Cons A show ?thesis by simp
  next
    case False
    show ?thesis
    proof (cases "butlast ?A = []")
      case True
      with A have one: "?A = [last ?A]"
        by (metis append_butlast_last_id append_Nil)
      have "split_nl (c # a) = [c # last ?A]"
        using False one by (metis split_nl.simps(2) list.sel(1) list.sel(3))
      moreover have "split_nl (a @ b) = split_nl (last ?A @ b)"
        using Cons True by simp
      ultimately show ?thesis using False by simp
    next
      case nonempty: False
      then obtain x xs where bl: "butlast ?A = x # xs"
        by (cases "butlast ?A") auto
      with A have A_eq: "?A = x # xs @ [last ?A]"
        by (metis append_butlast_last_id append_Cons)
      have "split_nl (a @ b) = x # xs @ split_nl (last ?A @ b)"
        using Cons bl by simp
      moreover have "split_nl (c # a) = (c # x) # xs @ [last ?A]"
        using False A_eq by (metis split_nl.simps(2) list.sel(1) list.sel(3))
      ultimately show ?thesis using False by simp
    qed
  qed
qed

lemma complete_lines_append:
  "complete_lines (a @ b) = complete_lines a @ complete_lines (pending a @ b)"
  by (simp add: complete_lines_def pending_def split_nl_append [of a b]
      butlast_append split_nl_nonempty)

lemma pending_append: "pending (a @ b) = pending (pending a @ b)"
  by (simp add: pending_def split_nl_append [of a b] split_nl_nonempty)

lemma split_nl_no_newline: "newline \<notin> set s \<Longrightarrow> split_nl s = [s]"
  by (induction s) auto

lemma all_pieces_no_newline: "\<forall>piece \<in> set (split_nl s). newline \<notin> set piece"
proof (induction s)
  case Nil
  show ?case by simp
next
  case (Cons c s)
  have ne: "split_nl s \<noteq> []" by (rule split_nl_nonempty)
  then have "hd (split_nl s) \<in> set (split_nl s)" by simp
  moreover have "set (tl (split_nl s)) \<subseteq> set (split_nl s)"
    using ne by (cases "split_nl s") auto
  ultimately show ?case using Cons by auto
qed

lemma pending_no_newline: "newline \<notin> set (pending s)"
  using all_pieces_no_newline [of s] split_nl_nonempty [of s]
  by (simp add: pending_def)

lemma pending_idem: "newline \<notin> set buf \<Longrightarrow> pending buf = buf"
  by (simp add: pending_def split_nl_no_newline)

lemma complete_lines_no_newline: "newline \<notin> set buf \<Longrightarrow> complete_lines buf = []"
  by (simp add: complete_lines_def split_nl_no_newline)

lemma all_dropWhile: "(\<forall>c \<in> set (dropWhile P xs). P c) \<longleftrightarrow> (\<forall>c \<in> set xs. P c)"
  by (induction xs) auto

lemma blank_iff: "blank line \<longleftrightarrow> (\<forall>c \<in> set line. is_space c)"
  by (simp add: blank_def trim_def dropWhile_eq_Nil_conv all_dropWhile)

lemma split_nl_line:
  "newline \<notin> set line \<Longrightarrow> split_nl (line @ newline # rest) = line # split_nl rest"
  by (induction line) auto

lemma split_one_line: "split_nl (t @ [newline]) = [t, []] \<longleftrightarrow> newline \<notin> set t"
proof
  assume "split_nl (t @ [newline]) = [t, []]"
  then have "t \<in> set (split_nl (t @ [newline]))" by simp
  then show "newline \<notin> set t"
    using all_pieces_no_newline [of "t @ [newline]"] by blast
next
  assume "newline \<notin> set t"
  then show "split_nl (t @ [newline]) = [t, []]"
    by (simp add: split_nl_line)
qed

subsection \<open>The framer\<close>

lemma frame_chunk_eq:
  "frame_chunk to_string buf chunk =
     (filter (\<lambda>line. \<not> blank line) (complete_lines (buf @ to_string chunk)),
      pending (buf @ to_string chunk))"
  by (simp add: frame_chunk_def complete_lines_def pending_def Let_def)

lemma framer_eq:
  "newline \<notin> set buf \<Longrightarrow>
   framer to_string buf chunks =
     (filter (\<lambda>line. \<not> blank line) (complete_lines (buf @ concat (map to_string chunks))),
      pending (buf @ concat (map to_string chunks)))"
proof (induction chunks arbitrary: buf)
  case Nil
  then show ?case by (simp add: pending_idem complete_lines_no_newline)
next
  case (Cons chunk chunks)
  let ?t = "concat (map to_string chunks)"
  have "framer to_string (pending (buf @ to_string chunk)) chunks =
     (filter (\<lambda>line. \<not> blank line) (complete_lines (pending (buf @ to_string chunk) @ ?t)),
      pending (pending (buf @ to_string chunk) @ ?t))"
    by (rule Cons.IH) (rule pending_no_newline)
  then show ?case
    using complete_lines_append [of "buf @ to_string chunk" ?t]
      pending_append [of "buf @ to_string chunk" ?t]
    by (simp add: frame_chunk_eq)
qed

lemma framer_append:
  "framer to_string buf (chunks @ rest) =
     (fst (framer to_string buf chunks) @
        fst (framer to_string (snd (framer to_string buf chunks)) rest),
      snd (framer to_string (snd (framer to_string buf chunks)) rest))"
  by (induction chunks arbitrary: buf) (simp_all add: Let_def split: prod.splits)

subsection \<open>The decoder\<close>

lemma run_append:
  "run s (a @ b) =
     (fst (run s a) @ fst (run (snd (run s a)) b), snd (run (snd (run s a)) b))"
  by (induction a arbitrary: s) simp_all

lemma utf8_clean_boundary:
  "snd (run Idle a) = Idle \<Longrightarrow> utf8_to_string (a @ b) = utf8_to_string a @ utf8_to_string b"
  by (simp add: utf8_to_string_def run_append)

lemma utf8_clean_boundaries:
  "\<forall>chunk \<in> set chunks. snd (run Idle chunk) = Idle \<Longrightarrow>
   utf8_to_string (concat chunks) = concat (map utf8_to_string chunks)"
proof (induction chunks)
  case Nil
  show ?case by (simp add: utf8_to_string_def)
next
  case (Cons chunk chunks)
  then show ?case by (simp add: utf8_clean_boundary)
qed

lemma framer_clean_boundaries:
  assumes "\<forall>chunk \<in> set chunks. snd (run Idle chunk) = Idle"
  shows "framer utf8_to_string [] chunks = framer utf8_to_string [] [concat chunks]"
proof -
  have "framer utf8_to_string [] [concat chunks] =
      (filter (\<lambda>line. \<not> blank line) (complete_lines (utf8_to_string (concat chunks))),
       pending (utf8_to_string (concat chunks)))"
    using framer_eq [of "[]" utf8_to_string "[concat chunks]"] by simp
  moreover have "framer utf8_to_string [] chunks =
      (filter (\<lambda>line. \<not> blank line) (complete_lines (concat (map utf8_to_string chunks))),
       pending (concat (map utf8_to_string chunks)))"
    using framer_eq [of "[]" utf8_to_string chunks] by simp
  ultimately show ?thesis using utf8_clean_boundaries [OF assms] by simp
qed

subsection \<open>The dispatch loop\<close>

lemma dispatch_eq:
  "dispatch line ss st = st\<lparr>sent := (\<lambda>r. sent st r @ delivered line ss r)\<rparr>"
proof (induction ss arbitrary: st)
  case Nil
  show ?case by (simp add: delivered_def)
next
  case (Cons p ss)
  obtain k r' where p: "p = (k, r')" by (cases p)
  let ?st = "st\<lparr>sent := (sent st)(r' := sent st r' @ message_event line)\<rparr>"
  have "dispatch line (p # ss) st = dispatch line ss ?st"
    by (simp add: p res_write_def message_event_def)
  also have "\<dots> = ?st\<lparr>sent := (\<lambda>r. sent ?st r @ delivered line ss r)\<rparr>"
    by (rule Cons.IH)
  also have "(\<lambda>r. sent ?st r @ delivered line ss r) = (\<lambda>r. sent st r @ delivered line (p # ss) r)"
    by (auto simp: fun_eq_iff delivered_def p)
  finally show ?case by simp
qed

lemma delivered_unregistered: "r \<notin> snd ` set ss \<Longrightarrow> delivered line ss r = []"
proof -
  assume "r \<notin> snd ` set ss"
  then have "filter (\<lambda>p. snd p = r) ss = []"
    by (auto simp: filter_empty_conv)
  then show ?thesis by (simp add: delivered_def)
qed

lemma delivered_once:
  "distinct (map snd ss) \<Longrightarrow> (k, r) \<in> set ss \<Longrightarrow> delivered line ss r = message_event line"
proof (induction ss)
  case Nil
  then show ?case by simp
next
  case (Cons p ss)
  show ?case
  proof (cases "snd p = r")
    case True
    with Cons.prems have "r \<notin> snd ` set ss" by auto
    then have "delivered line ss r = []" by (rule delivered_unregistered)
    then show ?thesis using True by (simp add: delivered_def)
  next
    case False
    with Cons.prems have "(k, r) \<in> set ss" and "distinct (map snd ss)" by auto
    then have "delivered line ss r = message_event line" using Cons.IH by simp
    then show ?thesis using False by (simp add: delivered_def)
  qed
qed

subsection \<open>The loop over the lines\<close>

lemma handle_line_frame:
  "buffer (handle_line json_ok line st) = buffer st \<and>
   sessions (handle_line json_ok line st) = sessions st \<and>
   child_stdin (handle_line json_ok line st) = child_stdin st"
  by (simp add: handle_line_def log_invalid_def dispatch_eq)

lemma handle_line_sent:
  "sent (handle_line json_ok line st) r =
     sent st r @ (if \<not> blank line \<and> json_ok line then delivered line (sessions st) r else [])"
  by (simp add: handle_line_def log_invalid_def dispatch_eq)

lemma process_lines_Nil [simp]: "process_lines json_ok [] st = st"
  by (simp add: process_lines_def)

lemma process_lines_Cons [simp]:
  "process_lines json_ok (line # lines) st =
     process_lines json_ok lines (handle_line json_ok line st)"
  by (simp add: process_lines_def)

lemma process_lines_append:
  "process_lines json_ok (xs @ ys) st = process_lines json_ok ys (process_lines json_ok xs st)"
  by (simp add: process_lines_def)

lemma process_lines_frame:
  "buffer (process_lines json_ok lines st) = buffer st \<and>
   sessions (process_lines json_ok lines st) = sessions st \<and>
   child_stdin (process_lines json_ok lines st) = child_stdin st"
  by (induction lines arbitrary: st) (simp_all add: handle_line_frame)

lemma process_lines_sent:
  "sent (process_lines json_ok lines st) r =
     sent st r @
     concat (map (\<lambda>line. delivered line (sessions st) r)
       (filter (\<lambda>line. \<not> blank line \<and> json_ok line) lines))"
proof (induction lines arbitrary: st)
  case Nil
  show ?case by simp
next
  case (Cons line lines)
  show ?case
    using Cons.IH [of "handle_line json_ok line st"]
    by (simp add: handle_line_frame handle_line_sent)
qed

subsection \<open>The \<^verbatim>\<open>data\<close> callback\<close>

lemma on_data_eq:
  "on_data to_string json_ok chunk st =
     process_lines json_ok (complete_lines (buffer st @ to_string chunk))
       (st\<lparr>buffer := pending (buffer st @ to_string chunk)\<rparr>)"
  by (simp add: on_data_def Let_def complete_lines_def pending_def)

lemma on_data_frame:
  "buffer (on_data to_string json_ok chunk st) = snd (frame_chunk to_string (buffer st) chunk) \<and>
   sessions (on_data to_string json_ok chunk st) = sessions st \<and>
   child_stdin (on_data to_string json_ok chunk st) = child_stdin st"
  by (simp add: on_data_eq process_lines_frame frame_chunk_eq)

lemma filter_filter_conj: "filter P (filter Q xs) = filter (\<lambda>x. Q x \<and> P x) xs"
  by (induction xs) simp_all

lemma on_data_sent:
  "sent (on_data to_string json_ok chunk st) r =
     sent st r @
     concat (map (\<lambda>line. delivered line (sessions st) r)
       (filter json_ok (fst (frame_chunk to_string (buffer st) chunk))))"
  using process_lines_sent
    [of json_ok "complete_lines (buffer st @ to_string chunk)"
       "st\<lparr>buffer := pending (buffer st @ to_string chunk)\<rparr>" r]
  by (simp add: on_data_eq frame_chunk_eq filter_filter_conj)

lemma feed_Nil [simp]: "feed to_string json_ok [] st = st"
  by (simp add: feed_def)

lemma feed_Cons [simp]:
  "feed to_string json_ok (chunk # chunks) st =
     feed to_string json_ok chunks (on_data to_string json_ok chunk st)"
  by (simp add: feed_def)

lemma feed_append:
  "feed to_string json_ok (xs @ ys) st =
     feed to_string json_ok ys (feed to_string json_ok xs st)"
  by (simp add: feed_def)

lemma feed_frame:
  "buffer (feed to_string json_ok chunks st) = snd (framer to_string (buffer st) chunks) \<and>
   sessions (feed to_string json_ok chunks st) = sessions st \<and>
   child_stdin (feed to_string json_ok chunks st) = child_stdin st"
  by (induction chunks arbitrary: st) (simp_all add: on_data_frame split: prod.splits)

lemma feed_sent:
  "sent (feed to_string json_ok chunks st) r =
     sent st r @
     concat (map (\<lambda>line. delivered line (sessions st) r)
       (filter json_ok (fst (framer to_string (buffer st) chunks))))"
proof (induction chunks arbitrary: st)
  case Nil
  show ?case by simp
next
  case (Cons chunk chunks)
  show ?case
    using Cons.IH [of "on_data to_string json_ok chunk st"]
    by (simp add: on_data_frame on_data_sent split: prod.splits)
qed

lemma feed_unregistered:
  "r \<notin> snd ` set (sessions st) \<Longrightarrow> sent (feed to_string json_ok chunks st) r = sent st r"
  by (simp add: feed_sent delivered_unregistered)

subsection \<open>The line framer and the chunk boundaries\<close>

text \<open>
  C2. The framer keeps what follows the last newline and puts it in front of the next
  chunk, so that the lines do not depend on where the chunks end (\<open>framer_eq\<close>,
  \<open>framer_clean_boundaries\<close>: they do not when every chunk ends between two characters).
  But each chunk is decoded before it is appended. The seven bytes 5b 22 c3 a9 22 5d 0a
  are the line \<^verbatim>\<open>["e"]\<close>, its letter being U+00E9, and its newline. As one chunk they give that line; cut
  between c3 and a9, the two bytes of U+00E9, they give a line in which two U+FFFD stand
  for the character.
\<close>

theorem framer_cut_character:
  "framer utf8_to_string []
     [[CHR 0x5B, CHR 0x22, CHR 0xC3, CHR 0xA9, CHR 0x22, CHR 0x5D, CHR 0x0A]] =
     ([[0x5B, 0x22, 0xE9, 0x22, 0x5D]], [])
   \<and> framer utf8_to_string []
     [[CHR 0x5B, CHR 0x22, CHR 0xC3], [CHR 0xA9, CHR 0x22, CHR 0x5D, CHR 0x0A]] =
     ([[0x5B, 0x22, 0xFFFD, 0xFFFD, 0x22, 0x5D]], [])"
  by code_simp

subsection \<open>Broadcast in the order of emission\<close>



subsection \<open>A line that does not parse\<close>

lemma handle_line_invalid:
  "\<not> json_ok line \<Longrightarrow>
   handle_line json_ok line st = (if blank line then st else log_invalid line st)"
  by (simp add: handle_line_def)

lemma on_data_one_line:
  assumes "newline \<notin> set line" and "buffer st = []" and "to_string chunk = line @ [newline]"
  shows "on_data to_string json_ok chunk st = handle_line json_ok line st"
proof -
  have pieces: "split_nl (line @ [newline]) = [line, []]"
    using assms(1) by (simp add: split_nl_line)
  have same: "st\<lparr>buffer := []\<rparr> = st"
    using assms(2) by simp
  show ?thesis
    by (simp add: on_data_def assms(2,3) pieces same del: split_nl.simps)
qed

text \<open>
  C3. A line for which \<^verbatim>\<open>JSON.parse\<close> throws is written to no session and changes neither
  the registry nor the child's input; when it is not blank it is printed with
  \<^verbatim>\<open>console.error\<close> (a blank line never reaches the parser and is skipped silently). The
  lines before and after it are handled as if it had not been there: every session's
  stream is the same with and without the bad line, whether the bad line stands among
  the lines of one chunk or comes as a chunk of its own before further chunks.
\<close>

theorem malformed_line_isolated:
  assumes "\<not> json_ok bad"
  shows "sent (handle_line json_ok bad st) = sent st
         \<and> sessions (handle_line json_ok bad st) = sessions st
         \<and> child_stdin (handle_line json_ok bad st) = child_stdin st
         \<and> console_error (handle_line json_ok bad st) =
             (if blank bad then console_error st
              else console_error st @ [js ''Targetly Adapter: Invalid JSON from child: '' @ bad])
         \<and> sent (process_lines json_ok (before @ bad # after) st) =
             sent (process_lines json_ok (before @ after) st)
         \<and> (newline \<notin> set bad \<and> buffer st = [] \<and> to_string chunk = bad @ [newline] \<longrightarrow>
              sent (feed to_string json_ok (chunk # chunks) st) =
                sent (feed to_string json_ok chunks st)
              \<and> buffer (feed to_string json_ok (chunk # chunks) st) =
                  buffer (feed to_string json_ok chunks st))"
proof -
  have one: "sent (handle_line json_ok bad st) = sent st
      \<and> sessions (handle_line json_ok bad st) = sessions st
      \<and> child_stdin (handle_line json_ok bad st) = child_stdin st
      \<and> console_error (handle_line json_ok bad st) =
          (if blank bad then console_error st
           else console_error st @ [js ''Targetly Adapter: Invalid JSON from child: '' @ bad])"
    using assms by (simp add: handle_line_invalid log_invalid_def)
  have loop: "sent (process_lines json_ok (before @ bad # after) st) =
      sent (process_lines json_ok (before @ after) st)"
    using assms by (simp add: fun_eq_iff process_lines_sent)
  have stream: "sent (feed to_string json_ok (chunk # chunks) st) =
        sent (feed to_string json_ok chunks st)
      \<and> buffer (feed to_string json_ok (chunk # chunks) st) =
          buffer (feed to_string json_ok chunks st)"
    if "newline \<notin> set bad" and "buffer st = []" and "to_string chunk = bad @ [newline]"
  proof -
    let ?s = "handle_line json_ok bad st"
    have "on_data to_string json_ok chunk st = ?s"
      using that by (rule on_data_one_line)
    moreover have "sent ?s = sent st" and "sessions ?s = sessions st" and "buffer ?s = buffer st"
      using one by (simp_all add: handle_line_frame)
    ultimately show ?thesis
      by (simp add: fun_eq_iff feed_sent feed_frame)
  qed
  from one loop stream show ?thesis by blast
qed

theorem malformed_line_isolated_witness:
  "\<not> bracketed (js ''not-json'') \<and> newline \<notin> set (js ''not-json'')
   \<and> buffer two_sessions = [] \<and> utf8_to_string ''not-json\<newline>'' = js ''not-json'' @ [newline]
   \<and> console_error (handle_line bracketed (js ''not-json'') two_sessions) =
       [js ''Targetly Adapter: Invalid JSON from child: not-json'']
   \<and> sent (handle_line bracketed (js ''not-json'') two_sessions) 1 = []
   \<and> sent (feed utf8_to_string bracketed [''not-json\<newline>'', ''{}\<newline>''] two_sessions) 1 =
       [js ''event: message\<newline>'', js ''data: {}\<newline>\<newline>'']"
proof -
  have h1: "\<not> bracketed (js ''not-json'')"
    by code_simp
  have h2: "newline \<notin> set (js ''not-json'')"
    by code_simp
  have h3: "buffer two_sessions = []"
    by (simp add: two_sessions_def init_def)
  have h4: "utf8_to_string ''not-json\<newline>'' = js ''not-json'' @ [newline]"
    by code_simp
  have h5: "\<not> blank (js ''not-json'')"
    by code_simp
  have after: "sent (feed utf8_to_string bracketed [''{}\<newline>''] two_sessions) 1 =
      [js ''event: message\<newline>'', js ''data: {}\<newline>\<newline>'']"
    by code_simp
  have log: "console_error two_sessions = []" and out: "sent two_sessions 1 = []"
    by (simp_all add: two_sessions_def init_def)
  have lit: "[js ''Targetly Adapter: Invalid JSON from child: '' @ js ''not-json''] =
      [js ''Targetly Adapter: Invalid JSON from child: not-json'']"
    by (simp add: js_def)
  note inst = malformed_line_isolated
    [where json_ok = bracketed and bad = "js ''not-json''" and st = two_sessions
       and before = "[]" and after = "[]" and chunks = "[''{}\<newline>'']"
       and to_string = utf8_to_string and chunk = "''not-json\<newline>''", OF h1]
  from inst h5 have "console_error (handle_line bracketed (js ''not-json'') two_sessions) =
      console_error two_sessions @ [js ''Targetly Adapter: Invalid JSON from child: '' @ js ''not-json'']"
    by presburger
  then have a: "console_error (handle_line bracketed (js ''not-json'') two_sessions) =
      [js ''Targetly Adapter: Invalid JSON from child: not-json'']"
    by (simp only: log lit append_Nil)
  from inst have "sent (handle_line bracketed (js ''not-json'') two_sessions) = sent two_sessions"
    by blast
  then have b: "sent (handle_line bracketed (js ''not-json'') two_sessions) 1 = []"
    by (simp only: out)
  from inst h2 h3 h4 have
    "sent (feed utf8_to_string bracketed (''not-json\<newline>'' # [''{}\<newline>'']) two_sessions) =
     sent (feed utf8_to_string bracketed [''{}\<newline>''] two_sessions)"
    by blast
  then have c: "sent (feed utf8_to_string bracketed [''not-json\<newline>'', ''{}\<newline>''] two_sessions) 1 =
      [js ''event: message\<newline>'', js ''data: {}\<newline>\<newline>'']"
    by (simp only: after)
  from h1 h2 h3 h4 a b c show ?thesis by blast
qed

subsection \<open>The registry between the callbacks\<close>

lemma sessions_has_iff: "sessions_has st k \<longleftrightarrow> k \<in> fst ` set (sessions st)"
  by (simp add: sessions_has_def map_of_eq_None_iff)

lemma init_ok: "registry_ok init \<and> own_channels init"
  by (simp add: registry_ok_def own_channels_def init_def)

lemma on_close_frame:
  "buffer (on_close k st) = buffer st \<and> sent (on_close k st) = sent st \<and>
   child_stdin (on_close k st) = child_stdin st"
  by (simp add: on_close_def)

lemma set_delete: "set (AList.delete k ss) = {p \<in> set ss. fst p \<noteq> k}"
  by (auto simp: AList.delete_eq)

lemma on_close_keeps:
  "registry_ok st \<Longrightarrow> registry_ok (on_close k st)"
  "own_channels st \<Longrightarrow> own_channels (on_close k st)"
  by (auto simp: registry_ok_def own_channels_def on_close_def set_delete
      AList.delete_eq distinct_map_filter)

lemma on_close_idem: "on_close k (on_close k st) = on_close k st"
  by (simp add: on_close_def AList.delete_idem)

lemma on_ping_frame:
  "sessions (on_ping r st) = sessions st \<and> child_stdin (on_ping r st) = child_stdin st \<and>
   buffer (on_ping r st) = buffer st"
  by (simp add: on_ping_def res_write_def)

lemma own_channel_key:
  assumes "distinct (map snd ss)" and "(k, r) \<in> set ss" and "(k', r) \<in> set ss"
  shows "k' = k"
proof -
  from assms(1) have "inj_on snd (set ss)" by (simp add: distinct_map)
  moreover have "snd (k', r) = snd (k, r)" by simp
  ultimately have "(k', r) = (k, r)" using assms(3) assms(2) by (rule inj_onD)
  then show ?thesis by simp
qed

lemma closed_unregistered:
  assumes "own_channels st" and "(k, r) \<in> set (sessions st)"
  shows "r \<notin> snd ` set (sessions (on_close k st))"
proof
  assume "r \<in> snd ` set (sessions (on_close k st))"
  then obtain k' where "(k', r) \<in> set (sessions st)" and "k' \<noteq> k"
    by (auto simp: on_close_def set_delete)
  with assms show False
    using own_channel_key [of "sessions st" k r k'] by (simp add: own_channels_def)
qed

lemma feed_keeps:
  "registry_ok st \<Longrightarrow> registry_ok (feed to_string json_ok chunks st)"
  "own_channels st \<Longrightarrow> own_channels (feed to_string json_ok chunks st)"
  by (simp_all add: registry_ok_def own_channels_def feed_frame)

lemma close_self:
  assumes "own_channels st" and "(k, r) \<in> set (sessions st)"
  shows "sent (feed to_string json_ok chunks (on_close k st)) r = sent st r"
proof -
  have "r \<notin> snd ` set (sessions (on_close k st))"
    using assms by (rule closed_unregistered)
  then have "sent (feed to_string json_ok chunks (on_close k st)) r = sent (on_close k st) r"
    by (rule feed_unregistered)
  then show ?thesis by (simp add: on_close_frame)
qed

lemma close_others:
  assumes "own_channels st" and "(k', r') \<in> set (sessions st)" and "k' \<noteq> k"
  shows "sent (feed to_string json_ok chunks (on_close k st)) r' =
         sent (feed to_string json_ok chunks st) r'"
proof -
  have in_rest: "(k', r') \<in> set (sessions (on_close k st))"
    using assms(2,3) by (simp add: on_close_def set_delete)
  have "delivered line (sessions st) r' = message_event line" for line
    using assms(1,2) by (simp add: own_channels_def delivered_once)
  moreover have "delivered line (sessions (on_close k st)) r' = message_event line" for line
    using on_close_keeps(2) [OF assms(1), of k] in_rest
    by (simp add: own_channels_def delivered_once)
  ultimately show ?thesis
    by (simp add: feed_sent on_close_frame)
qed

subsection \<open>Closed sessions\<close>

text \<open>
  C8. A connection that fails shows to the adapter as the \<^verbatim>\<open>close\<close> event of its request,
  whose handler removes the session; a write on a response object returns in any case, so
  a broadcast always runs over the whole registry. Handling child output never changes
  the registry or the child's input, and nothing is written to a response object that no
  entry of the registry holds. So a session closed before a message is dispatched receives
  no event for it, and none later (nothing is sent again), also when it closes between
  two chunks of the output. Closing a session, before or in the middle of the output,
  leaves what every other session receives unchanged (one event for each line that
  parses, in order), and does not touch the child's input. Closing twice is closing once.
\<close>

theorem closed_session_receives_nothing:
  "sessions (feed to_string json_ok chunks st) = sessions st
   \<and> child_stdin (feed to_string json_ok chunks st) = child_stdin st
   \<and> child_stdin (on_close k st) = child_stdin st
   \<and> on_close k (on_close k st) = on_close k st
   \<and> (r \<notin> snd ` set (sessions st) \<longrightarrow> sent (feed to_string json_ok chunks st) r = sent st r)
   \<and> (own_channels st \<and> (k, r) \<in> set (sessions st) \<longrightarrow>
        \<not> sessions_has (on_close k st) k
        \<and> sent (feed to_string json_ok chunks (on_close k st)) r = sent st r
        \<and> sent (feed to_string json_ok later (on_close k (feed to_string json_ok chunks st))) r =
            sent (feed to_string json_ok chunks st) r)
   \<and> (own_channels st \<and> (k', r') \<in> set (sessions st) \<and> k' \<noteq> k \<longrightarrow>
        sent (feed to_string json_ok chunks (on_close k st)) r' =
          sent (feed to_string json_ok chunks st) r'
        \<and> sent (feed to_string json_ok chunks (on_close k st)) r' =
            sent st r' @
            concat (map message_event
              (filter json_ok (fst (framer to_string (buffer st) chunks))))
        \<and> sent (feed to_string json_ok later (on_close k (feed to_string json_ok chunks st))) r' =
            sent (feed to_string json_ok (chunks @ later) st) r')"
proof -
  let ?mid = "feed to_string json_ok chunks st"
  have mid: "own_channels ?mid" "sessions ?mid = sessions st" if "own_channels st"
    using that by (simp_all add: feed_keeps feed_frame)
  have closed: "\<not> sessions_has (on_close k st) k
      \<and> sent (feed to_string json_ok chunks (on_close k st)) r = sent st r
      \<and> sent (feed to_string json_ok later (on_close k ?mid)) r = sent ?mid r"
    if "own_channels st" and "(k, r) \<in> set (sessions st)"
  proof -
    have "\<not> sessions_has (on_close k st) k"
      by (auto simp: sessions_has_iff on_close_def set_delete)
    moreover have "sent (feed to_string json_ok later (on_close k ?mid)) r = sent ?mid r"
      using mid [OF that(1)] that(2) by (simp add: close_self)
    ultimately show ?thesis using that by (simp add: close_self)
  qed
  have others: "sent (feed to_string json_ok chunks (on_close k st)) r' =
        sent (feed to_string json_ok chunks st) r'
      \<and> sent (feed to_string json_ok chunks (on_close k st)) r' =
          sent st r' @
          concat (map message_event
            (filter json_ok (fst (framer to_string (buffer st) chunks))))
      \<and> sent (feed to_string json_ok later (on_close k ?mid)) r' =
          sent (feed to_string json_ok (chunks @ later) st) r'"
    if "own_channels st" and "(k', r') \<in> set (sessions st)" and "k' \<noteq> k"
  proof -
    have "sent (feed to_string json_ok later (on_close k ?mid)) r' =
        sent (feed to_string json_ok later ?mid) r'"
      using mid [OF that(1)] that(2,3) by (simp add: close_others)
    moreover have "delivered line (sessions st) r' = message_event line" for line
      using that(1,2) by (simp add: own_channels_def delivered_once)
    then have "sent (feed to_string json_ok chunks st) r' =
        sent st r' @
        concat (map message_event
          (filter json_ok (fst (framer to_string (buffer st) chunks))))"
      by (simp add: feed_sent)
    ultimately show ?thesis using that by (simp add: close_others feed_append)
  qed
  have plain: "sessions (feed to_string json_ok chunks st) = sessions st
      \<and> child_stdin (feed to_string json_ok chunks st) = child_stdin st
      \<and> child_stdin (on_close k st) = child_stdin st
      \<and> on_close k (on_close k st) = on_close k st
      \<and> (r \<notin> snd ` set (sessions st) \<longrightarrow>
           sent (feed to_string json_ok chunks st) r = sent st r)"
    by (simp add: feed_frame feed_unregistered on_close_frame on_close_idem)
  from plain closed others show ?thesis by blast
qed

theorem closed_session_receives_nothing_witness:
  "own_channels two_sessions
   \<and> (js ''a'', 0) \<in> set (sessions two_sessions) \<and> (js ''b'', 1) \<in> set (sessions two_sessions)
   \<and> js ''b'' \<noteq> js ''a'' \<and> 7 \<notin> snd ` set (sessions two_sessions)
   \<and> sent (feed utf8_to_string bracketed [''{}\<newline>''] (on_close (js ''a'') two_sessions)) 0 = []
   \<and> sent (feed utf8_to_string bracketed [''[1]\<newline>'']
        (on_close (js ''a'') (feed utf8_to_string bracketed [''{}\<newline>''] two_sessions))) 0 =
       [js ''event: message\<newline>'', js ''data: {}\<newline>\<newline>'']
   \<and> sent (feed utf8_to_string bracketed [''[1]\<newline>'']
        (on_close (js ''a'') (feed utf8_to_string bracketed [''{}\<newline>''] two_sessions))) 1 =
       [js ''event: message\<newline>'', js ''data: {}\<newline>\<newline>'',
        js ''event: message\<newline>'', js ''data: [1]\<newline>\<newline>'']
   \<and> sent (feed utf8_to_string bracketed [''{}\<newline>''] two_sessions) 7 = []"
proof -
  have h1: "own_channels two_sessions"
    by code_simp
  have h3: "(js ''a'', 0) \<in> set (sessions two_sessions)"
    and h4: "(js ''b'', 1) \<in> set (sessions two_sessions)"
    and h5: "7 \<notin> snd ` set (sessions two_sessions)"
    by (simp_all add: two_sessions_def init_def)
  have h6: "js ''b'' \<noteq> js ''a''"
    by code_simp
  have before: "sent two_sessions 0 = []" "sent two_sessions 7 = []"
    by (simp_all add: two_sessions_def init_def)
  have first: "sent (feed utf8_to_string bracketed [''{}\<newline>''] two_sessions) 0 =
      [js ''event: message\<newline>'', js ''data: {}\<newline>\<newline>'']"
    by code_simp
  have both: "sent (feed utf8_to_string bracketed ([''{}\<newline>''] @ [''[1]\<newline>'']) two_sessions) 1 =
      [js ''event: message\<newline>'', js ''data: {}\<newline>\<newline>'',
       js ''event: message\<newline>'', js ''data: [1]\<newline>\<newline>'']"
    by code_simp
  note inst = closed_session_receives_nothing
    [where to_string = utf8_to_string and json_ok = bracketed and chunks = "[''{}\<newline>'']"
       and later = "[''[1]\<newline>'']" and st = two_sessions
       and k = "js ''a''" and r = 0 and k' = "js ''b''" and r' = 1]
  note inst7 = closed_session_receives_nothing
    [where to_string = utf8_to_string and json_ok = bracketed and chunks = "[''{}\<newline>'']"
       and later = "[''[1]\<newline>'']" and st = two_sessions
       and k = "js ''a''" and r = 7 and k' = "js ''b''" and r' = 1]
  from inst h1 h3 have
    "sent (feed utf8_to_string bracketed [''{}\<newline>''] (on_close (js ''a'') two_sessions)) 0 =
       sent two_sessions 0"
    by blast
  then have a: "sent (feed utf8_to_string bracketed [''{}\<newline>''] (on_close (js ''a'') two_sessions)) 0 = []"
    by (simp only: before)
  from inst h1 h3 have
    "sent (feed utf8_to_string bracketed [''[1]\<newline>'']
        (on_close (js ''a'') (feed utf8_to_string bracketed [''{}\<newline>''] two_sessions))) 0 =
     sent (feed utf8_to_string bracketed [''{}\<newline>''] two_sessions) 0"
    by blast
  then have b: "sent (feed utf8_to_string bracketed [''[1]\<newline>'']
        (on_close (js ''a'') (feed utf8_to_string bracketed [''{}\<newline>''] two_sessions))) 0 =
       [js ''event: message\<newline>'', js ''data: {}\<newline>\<newline>'']"
    by (simp only: first)
  from inst h1 h4 h6 have
    "sent (feed utf8_to_string bracketed [''[1]\<newline>'']
        (on_close (js ''a'') (feed utf8_to_string bracketed [''{}\<newline>''] two_sessions))) 1 =
     sent (feed utf8_to_string bracketed ([''{}\<newline>''] @ [''[1]\<newline>'']) two_sessions) 1"
    by blast
  then have c: "sent (feed utf8_to_string bracketed [''[1]\<newline>'']
        (on_close (js ''a'') (feed utf8_to_string bracketed [''{}\<newline>''] two_sessions))) 1 =
       [js ''event: message\<newline>'', js ''data: {}\<newline>\<newline>'',
        js ''event: message\<newline>'', js ''data: [1]\<newline>\<newline>'']"
    by (simp only: both)
  from inst7 h5 have "sent (feed utf8_to_string bracketed [''{}\<newline>''] two_sessions) 7 =
      sent two_sessions 7"
    by blast
  then have d: "sent (feed utf8_to_string bracketed [''{}\<newline>''] two_sessions) 7 = []"
    by (simp only: before)
  from h1 h3 h4 h5 h6 a b c d show ?thesis by blast
qed

subsection \<open>\<^verbatim>\<open>POST /messages\<close>: the route\<close>

lemma registered_valid:
  "registry_ok st \<Longrightarrow> sessions_has st k \<Longrightarrow> \<not> invalid_session st (Value k)"
  by (force simp: registry_ok_def sessions_has_iff invalid_session_def)


lemma post_keeps:
  "sessions (snd (post_messages stringify q b st)) = sessions st \<and>
   sent (snd (post_messages stringify q b st)) = sent st \<and>
   buffer (snd (post_messages stringify q b st)) = buffer st"
  by (simp add: post_messages_def)

text \<open>
  C4, as the code has it. A POST that reaches the route with a \<^verbatim>\<open>session_id\<close> that is a
  key of the registry makes exactly one write to the child's input, the body followed by
  one newline, and is answered with status 202. The body is the serialization
  \<^verbatim>\<open>JSON.stringify\<close> gives when the parsers left an object and the text itself when they
  left a string. The write is one line exactly when the body text holds no newline; that
  is so for every object body when the serializer emits no newline.
\<close>

theorem post_forwards_body:
  assumes "registry_ok st" and "sessions_has st k"
  shows "post_messages stringify (Value k) (Object j) st =
           (\<lparr>status = 202, payload = js ''Accepted''\<rparr>,
            st\<lparr>child_stdin := child_stdin st @ [stringify j @ [newline]]\<rparr>)
         \<and> post_messages stringify (Value k) (Text t) st =
           (\<lparr>status = 202, payload = js ''Accepted''\<rparr>,
            st\<lparr>child_stdin := child_stdin st @ [t @ [newline]]\<rparr>)
         \<and> (split_nl (t @ [newline]) = [t, []] \<longleftrightarrow> newline \<notin> set t)
         \<and> (newline \<notin> set (stringify j) \<longrightarrow>
              split_nl (stringify j @ [newline]) = [stringify j, []])"
  using registered_valid [OF assms] split_one_line [of t] split_one_line [of "stringify j"]
  by (simp add: post_messages_def body_text_def del: split_nl.simps)

theorem post_forwards_body_witness:
  "registry_ok two_sessions \<and> sessions_has two_sessions (js ''b'')
   \<and> newline \<notin> set (stringify_unit ())
   \<and> status (fst (post_messages stringify_unit (Value (js ''b'')) (Object ()) two_sessions)) = 202
   \<and> child_stdin (snd (post_messages stringify_unit (Value (js ''b'')) (Object ()) two_sessions)) =
       [js ''{}\<newline>'']
   \<and> child_stdin (snd (post_messages stringify_unit (Value (js ''b'')) (Text (js ''[1]'')) two_sessions)) =
       [js ''[1]\<newline>'']
   \<and> split_nl (js ''{}\<newline>'') = [js ''{}'', []]"
proof -
  have h1: "registry_ok two_sessions"
    by (simp add: registry_ok_def two_sessions_def init_def js_def)
  have h2: "sessions_has two_sessions (js ''b'')"
    by code_simp
  have h3: "newline \<notin> set (stringify_unit ())"
    by code_simp
  have empty: "child_stdin two_sessions = []"
    by (simp add: two_sessions_def init_def)
  have lit: "stringify_unit () = js ''{}''" "js ''{}'' @ [newline] = js ''{}\<newline>''"
    "js ''[1]'' @ [newline] = js ''[1]\<newline>''"
    by (simp_all add: stringify_unit_def js_def newline_def)
  note inst = post_forwards_body
    [OF h1 h2, where stringify = stringify_unit and j = "()" and t = "js ''[1]''"]
  from inst have
    "post_messages stringify_unit (Value (js ''b'')) (Object ()) two_sessions =
       (\<lparr>status = 202, payload = js ''Accepted''\<rparr>,
        two_sessions\<lparr>child_stdin := child_stdin two_sessions @ [stringify_unit () @ [newline]]\<rparr>)"
    by (rule conjunct1)
  then have a: "status (fst (post_messages stringify_unit (Value (js ''b'')) (Object ()) two_sessions)) = 202"
    and b: "child_stdin (snd (post_messages stringify_unit (Value (js ''b'')) (Object ()) two_sessions)) =
       [js ''{}\<newline>'']"
    by (simp_all add: empty lit)
  from inst have
    "post_messages stringify_unit (Value (js ''b'')) (Text (js ''[1]'')) two_sessions =
       (\<lparr>status = 202, payload = js ''Accepted''\<rparr>,
        two_sessions\<lparr>child_stdin := child_stdin two_sessions @ [js ''[1]'' @ [newline]]\<rparr>)"
    by blast
  then have c: "child_stdin (snd (post_messages stringify_unit (Value (js ''b'')) (Text (js ''[1]'')) two_sessions)) =
       [js ''[1]\<newline>'']"
    by (simp add: empty lit)
  from inst h3 have "split_nl (stringify_unit () @ [newline]) = [stringify_unit (), []]"
    by blast
  then have d: "split_nl (js ''{}\<newline>'') = [js ''{}'', []]"
    by (simp only: lit)
  from h1 h2 h3 a b c d show ?thesis by blast
qed

text \<open>
  C4 as stated fails. A string body on two lines, sent under a registered \<^verbatim>\<open>session_id\<close>,
  is acknowledged with 202 and written in one write that the child reads as two lines.
\<close>

theorem post_two_lines_counterexample:
  "registry_ok two_sessions \<and> sessions_has two_sessions (js ''b'')
   \<and> status (fst (post_messages stringify_unit (Value (js ''b'')) (Text (js ''[1,\<newline>2]'')) two_sessions)) = 202
   \<and> child_stdin (snd (post_messages stringify_unit (Value (js ''b'')) (Text (js ''[1,\<newline>2]'')) two_sessions)) =
       [js ''[1,\<newline>2]\<newline>'']
   \<and> split_nl (js ''[1,\<newline>2]\<newline>'') = [js ''[1,'', js ''2]'', []]"
  by code_simp

text \<open>
  C5. A POST whose \<^verbatim>\<open>session_id\<close> is missing, or is not a key of the registry, is answered
  with status 400 and leaves the adapter's state, the child's input included, as it was.
\<close>

theorem post_rejects_unknown_session:
  assumes "\<And>k. q = Value k \<Longrightarrow> \<not> sessions_has st k"
  shows "post_messages stringify q b st =
           (\<lparr>status = 400, payload = js ''Invalid or missing session_id''\<rparr>, st)
         \<and> status (fst (post_messages stringify q b st)) = 400
         \<and> child_stdin (snd (post_messages stringify q b st)) = child_stdin st"
proof -
  have "invalid_session st q"
    using assms by (cases q) (simp_all add: invalid_session_def)
  then show ?thesis by (simp add: post_messages_def)
qed

theorem post_rejects_unknown_session_witness:
  "\<not> sessions_has two_sessions (js ''c'')
   \<and> post_messages stringify_unit (Value (js ''c'')) (Text (js ''{}'')) two_sessions =
       (\<lparr>status = 400, payload = js ''Invalid or missing session_id''\<rparr>, two_sessions)
   \<and> post_messages stringify_unit Absent (Text (js ''{}'')) two_sessions =
       (\<lparr>status = 400, payload = js ''Invalid or missing session_id''\<rparr>, two_sessions)"
proof -
  have h: "\<not> sessions_has two_sessions (js ''c'')"
    by code_simp
  show ?thesis
    using post_rejects_unknown_session
        [of "Value (js ''c'')" two_sessions stringify_unit "Text (js ''{}'')"]
      post_rejects_unknown_session [of Absent two_sessions stringify_unit "Text (js ''{}'')"] h
    by simp
qed

subsection \<open>\<^verbatim>\<open>POST /messages\<close>: the endpoint\<close>







subsection \<open>Newlines in what the child reads\<close>

lemma sse_get_frame:
  "buffer (sse_get k r st) = buffer st \<and>
   sessions (sse_get k r st) = AList.update k r (sessions st) \<and>
   child_stdin (sse_get k r st) = child_stdin st \<and>
   console_error (sse_get k r st) = console_error st"
  by (simp add: sse_get_def res_write_def)

text \<open>
  C7, as the code has it. The POST handler is the only writer of the child's input. Each of
  its writes is the body text followed by one newline that the writer appends, so the
  write ends with a newline and is the body text before it. The body text is written as
  it is: the write is a single line exactly when the body text holds no newline. That is
  so for every object body when the serializer emits no newline.
\<close>

theorem stdin_write_terminated:
  "child_stdin (snd (post_messages stringify q b st)) =
     (if invalid_session st q then child_stdin st
      else child_stdin st @ [body_text stringify b @ [newline]])
   \<and> last (body_text stringify b @ [newline]) = newline
   \<and> butlast (body_text stringify b @ [newline]) = body_text stringify b
   \<and> (split_nl (body_text stringify b @ [newline]) = [body_text stringify b, []]
        \<longleftrightarrow> newline \<notin> set (body_text stringify b))
   \<and> (newline \<notin> set (stringify j) \<longrightarrow>
        split_nl (body_text stringify (Object j) @ [newline]) = [stringify j, []])
   \<and> child_stdin (feed to_string json_ok chunks st) = child_stdin st
   \<and> child_stdin (on_close k st) = child_stdin st
   \<and> child_stdin (sse_get k r st) = child_stdin st"
proof -
  have "newline \<notin> set (stringify j) \<longrightarrow>
      split_nl (body_text stringify (Object j) @ [newline]) = [stringify j, []]"
    by (simp add: body_text_def split_nl_line)
  then show ?thesis
    using split_one_line [of "body_text stringify b"]
    by (simp add: post_messages_def feed_frame on_close_frame sse_get_frame
        del: split_nl.simps)
qed

theorem stdin_write_terminated_witness:
  "newline \<notin> set (stringify_unit ()) \<and> \<not> invalid_session two_sessions (Value (js ''a''))
   \<and> child_stdin (snd (post_messages stringify_unit (Value (js ''a'')) (Object ()) two_sessions)) =
       [js ''{}\<newline>'']
   \<and> split_nl (js ''{}\<newline>'') = [js ''{}'', []]"
proof -
  have h1: "newline \<notin> set (stringify_unit ())"
    by code_simp
  have h2: "\<not> invalid_session two_sessions (Value (js ''a''))"
    by code_simp
  have empty: "child_stdin two_sessions = []"
    by (simp add: two_sessions_def init_def)
  have written: "body_text stringify_unit (Object ()) @ [newline] = js ''{}\<newline>''"
    and serial: "stringify_unit () = js ''{}''"
    by (simp_all add: body_text_def stringify_unit_def js_def newline_def)
  note inst = stdin_write_terminated
    [where stringify = stringify_unit and q = "Value (js ''a'')" and b = "Object ()"
       and st = two_sessions and j = "()" and json_ok = bracketed and chunks = "[]"
       and to_string = utf8_to_string and k = "[]" and r = 0]
  from inst h2 have
    "child_stdin (snd (post_messages stringify_unit (Value (js ''a'')) (Object ()) two_sessions)) =
       child_stdin two_sessions @ [body_text stringify_unit (Object ()) @ [newline]]"
    by presburger
  then have a: "child_stdin
      (snd (post_messages stringify_unit (Value (js ''a'')) (Object ()) two_sessions)) = [js ''{}\<newline>'']"
    by (simp only: written empty append_Nil)
  from inst h1 have
    "split_nl (body_text stringify_unit (Object ()) @ [newline]) = [stringify_unit (), []]"
    by blast
  then have b: "split_nl (js ''{}\<newline>'') = [js ''{}'', []]"
    by (simp only: written serial)
  from h1 h2 a b show ?thesis by blast
qed

text \<open>
  C7 as stated fails. A string body that holds a newline (here a JSON object printed on
  two lines) is written as it is: the write has a newline before its last character, and
  the child reads two lines.
\<close>

theorem embedded_newline_counterexample:
  "sessions_has two_sessions (js ''a'')
   \<and> child_stdin (snd (post_messages stringify_unit (Value (js ''a'')) (Text (js ''{\<newline>}'')) two_sessions)) =
       [js ''{\<newline>}\<newline>'']
   \<and> newline \<in> set (butlast (js ''{\<newline>}\<newline>''))
   \<and> split_nl (js ''{\<newline>}\<newline>'') = [js ''{'', js ''}'', []]"
  by code_simp

subsection \<open>\<^verbatim>\<open>GET /sse\<close>\<close>

lemma update_has: "k \<in> fst ` set (AList.update k r ss)"
  by (simp add: AList.dom_update)

lemma update_lookup: "map_of (AList.update k r ss) k = Some r"
  by (simp add: AList.update_conv')

lemma update_fresh: "k \<notin> fst ` set ss \<Longrightarrow> AList.update k r ss = ss @ [(k, r)]"
  by (induction ss) auto

lemma update_own_channels:
  "distinct (map snd ss) \<Longrightarrow> r \<notin> snd ` set ss \<Longrightarrow> distinct (map snd (AList.update k r ss))"
proof (induction ss)
  case Nil
  show ?case by simp
next
  case (Cons p ss)
  have "snd ` set (AList.update k r ss) \<subseteq> insert r (snd ` set ss)"
    by (induction ss) auto
  with Cons show ?case by (cases p) auto
qed

lemma sse_get_keeps:
  "k \<noteq> [] \<Longrightarrow> registry_ok st \<Longrightarrow> registry_ok (sse_get k r st)"
  "r \<notin> snd ` set (sessions st) \<Longrightarrow> own_channels st \<Longrightarrow> own_channels (sse_get k r st)"
  by (simp_all add: registry_ok_def own_channels_def sse_get_frame AList.dom_update
      update_own_channels)

text \<open>
  C6. \<open>sessionId\<close> is the identifier \<^verbatim>\<open>crypto.randomUUID()\<close> generated for this request and
  \<open>r\<close> the request's response object. The handler appends to the stream of \<open>r\<close> the event
  \<^verbatim>\<open>endpoint\<close> with the data \<^verbatim>\<open>/messages?session_id=<sessionId>\<close> and nothing else, so on
  a response object that nothing was written to it is the first event; it writes to no
  other stream. After the handler the registry has \<open>sessionId\<close> as a key, bound to \<open>r\<close>,
  and a POST with this \<^verbatim>\<open>session_id\<close> passes the handler's check. An identifier that
  was no key before is entered as a new last entry.
\<close>

theorem sse_get_endpoint_first:
  "sessions_has (sse_get sessionId r st) sessionId
   \<and> map_of (sessions (sse_get sessionId r st)) sessionId = Some r
   \<and> (sessionId \<noteq> [] \<longrightarrow> \<not> invalid_session (sse_get sessionId r st) (Value sessionId))
   \<and> (\<not> sessions_has st sessionId \<longrightarrow>
        sessions (sse_get sessionId r st) = sessions st @ [(sessionId, r)])
   \<and> sse_get sessionId r st =
        st\<lparr>sessions := AList.update sessionId r (sessions st),
           sent := (sent st)(r := sent st r @ endpoint_event sessionId)\<rparr>
   \<and> sent (sse_get sessionId r st) r =
        sent st r @
        [js ''event: endpoint'' @ [newline],
         js ''data: /messages?session_id='' @ sessionId @ [newline, newline]]
   \<and> (sent st r = [] \<longrightarrow> sent (sse_get sessionId r st) r = endpoint_event sessionId)
   \<and> (\<forall>r'. r' \<noteq> r \<longrightarrow> sent (sse_get sessionId r st) r' = sent st r')"
proof -
  have has: "sessions_has (sse_get sessionId r st) sessionId"
    by (simp add: sessions_has_iff sse_get_frame update_has)
  have bound: "map_of (sessions (sse_get sessionId r st)) sessionId = Some r"
    by (simp add: sse_get_frame update_lookup)
  have valid: "\<not> invalid_session (sse_get sessionId r st) (Value sessionId)"
    if "sessionId \<noteq> []"
    using that has by (simp add: invalid_session_def)
  have writes: "sse_get sessionId r st =
      st\<lparr>sessions := AList.update sessionId r (sessions st),
         sent := (sent st)(r := sent st r @ endpoint_event sessionId)\<rparr>"
    by (simp add: sse_get_def res_write_def endpoint_event_def)
  have fresh: "sessions (sse_get sessionId r st) = sessions st @ [(sessionId, r)]"
    if "\<not> sessions_has st sessionId"
    using that by (simp add: sessions_has_iff sse_get_frame update_fresh)
  from has bound valid writes fresh show ?thesis
    by (auto simp: endpoint_event_def)
qed

theorem sse_get_endpoint_first_witness:
  "js ''c'' \<noteq> [] \<and> sent two_sessions 2 = []
   \<and> \<not> sessions_has two_sessions (js ''c'')
   \<and> sessions (sse_get (js ''c'') 2 two_sessions) = [(js ''a'', 0), (js ''b'', 1), (js ''c'', 2)]
   \<and> sent (sse_get (js ''c'') 2 two_sessions) 2 =
       [js ''event: endpoint\<newline>'', js ''data: /messages?session_id=c\<newline>\<newline>'']
   \<and> sessions_has (sse_get (js ''c'') 2 two_sessions) (js ''c'')
   \<and> \<not> invalid_session (sse_get (js ''c'') 2 two_sessions) (Value (js ''c''))
   \<and> sent (sse_get (js ''c'') 2 two_sessions) 1 = sent two_sessions 1"
proof -
  have h1: "js ''c'' \<noteq> []"
    by (simp add: js_def)
  have h3: "sent two_sessions 2 = []"
    by (simp add: two_sessions_def init_def)
  have h4: "(1::nat) \<noteq> 2" by simp
  have h5: "\<not> sessions_has two_sessions (js ''c'')"
    by code_simp
  have lit: "endpoint_event (js ''c'') =
      [js ''event: endpoint\<newline>'', js ''data: /messages?session_id=c\<newline>\<newline>'']"
    by (simp add: endpoint_event_def js_def newline_def)
  note inst = sse_get_endpoint_first
    [where sessionId = "js ''c''" and r = 2 and st = two_sessions]
  from inst h3 have "sent (sse_get (js ''c'') 2 two_sessions) 2 = endpoint_event (js ''c'')"
    by blast
  then have a: "sent (sse_get (js ''c'') 2 two_sessions) 2 =
      [js ''event: endpoint\<newline>'', js ''data: /messages?session_id=c\<newline>\<newline>'']"
    by (simp only: lit)
  from inst have b: "sessions_has (sse_get (js ''c'') 2 two_sessions) (js ''c'')"
    by blast
  from inst h1 have c: "\<not> invalid_session (sse_get (js ''c'') 2 two_sessions) (Value (js ''c''))"
    by blast
  from inst h4 have d: "sent (sse_get (js ''c'') 2 two_sessions) 1 = sent two_sessions 1"
    by blast
  from inst h5 have "sessions (sse_get (js ''c'') 2 two_sessions) =
      sessions two_sessions @ [(js ''c'', 2)]"
    by blast
  then have e: "sessions (sse_get (js ''c'') 2 two_sessions) =
      [(js ''a'', 0), (js ''b'', 1), (js ''c'', 2)]"
    by (simp add: two_sessions_def init_def)
  from h1 h3 h5 a b c d e show ?thesis by blast
qed

subsection \<open>The child's exit\<close>

text \<open>
  C9, as the code has it. The adapter exits with the child's code when that code is not 0,
  and with 1 when the child reports no code or reports 0; it never exits with 0.
\<close>

theorem exit_code_nonzero:
  "on_exit None = 1 \<and> on_exit (Some 0) = 1
   \<and> (n \<noteq> 0 \<longrightarrow> on_exit (Some n) = n)
   \<and> on_exit code \<noteq> 0"
  by (cases code) (simp_all add: on_exit_def truthy_def)

theorem exit_code_nonzero_witness:
  "(3::nat) \<noteq> 0 \<and> on_exit (Some 3) = 3 \<and> on_exit None = 1"
  using exit_code_nonzero [of 3 None] by simp

text \<open>
  C9 as stated fails. A child that exits with code 0 reports a code, and the adapter exits
  with 1.
\<close>

theorem exit_zero_counterexample:
  "on_exit (Some 0) = 1 \<and> on_exit (Some 0) \<noteq> 0"
  by (simp add: on_exit_def truthy_def)

end
